theory Spec2Isabelle
  imports Complex_Main
begin

section \<open>The autonomous controller: data model\<close>

text \<open>
  The model follows the class \<open>AutonomousController\<close>. The counters that the code
  itself starts at zero and only increments (\<open>retryCount\<close>, task addresses) are natural
  numbers; numbers that can go below zero in the source (\<open>currentLoad\<close>, clock
  readings and their differences) are integers; \<open>maxRetries\<close>, which the code stores
  as the caller passed it, and the two moving averages are rationals (exact arithmetic
  in place of doubles). Every
  reading of \<open>Date.now()\<close> is a parameter \<open>now\<close>. Event emission and console logging
  change no controller state and are left out.
\<close>

datatype operation_mode = Supervised | Autonomous | Unrestricted

datatype capability_type = Personaplex | AgentZero | Poke | McpTool | CustomCap

datatype task_type = TVoice | TText | TCode | TResearch | TAutonomous | TCustom

datatype priority_class = Low | Normal | High | Critical

datatype task_status = Queued | Assigned | Running | Completed | Failed | Cancelled

datatype decision_type = Route | Scale | Heal | Optimize | Restrict | Unrestrict

record capability =
  cap_id :: string
  cap_name :: string
  cap_type :: capability_type
  cap_priority :: int
  enabled :: bool
  maxConcurrent :: int
  currentLoad :: int
  successRate :: rat
  avgLatencyMs :: rat
  tags :: "string list"

text \<open>
  A task object. Its \<open>id\<close> is the address of the object in the controller's task heap
  (the source draws a fresh timestamp-and-random string; only freshness matters). The
  opaque \<open>input\<close> payload is kept as its JSON text, the opaque \<open>result\<close> as its
  \<open>type\<close> tag.
\<close>

record task =
  task_id :: nat
  task_type :: task_type
  input :: string
  priority :: priority_class
  status :: task_status
  assignedTo :: "string option"
  createdAt :: int
  startedAt :: "int option"
  completedAt :: "int option"
  result :: "string option"
  error :: "string option"
  retryCount :: nat
  maxRetries :: rat

record decision =
  dec_type :: decision_type
  reason :: string
  confidence :: rat
  timestamp :: int
  executed :: bool
  requiresApproval :: bool

record controller_config =
  mode :: operation_mode
  selfHealing :: bool
  autoScaling :: bool
  intelligentRouting :: bool
  maxConcurrentTasks :: int
  taskTimeoutMs :: int
  cfg_maxRetries :: rat
  decisionThreshold :: rat
  contentFiltering :: bool
  safetyGuardrails :: bool
  verboseLogging :: bool

text \<open>
  The controller. Task objects are shared between the queue, the active map, the running
  executions and the caller, so they live in a heap \<open>tasks\<close> (addresses below
  \<open>nextTask\<close> are allocated) and the collections hold addresses. \<open>capabilities\<close> is
  the values of the capability map in insertion order, each keyed by its own \<open>cap_id\<close>.
  \<open>executing\<close> holds the calls of \<open>executeTask\<close> that have started and not yet
  settled: task, capability id and \<open>startTime\<close>.
\<close>

record controller =
  config :: controller_config
  capabilities :: "capability list"
  tasks :: "nat \<Rightarrow> task"
  nextTask :: nat
  taskQueue :: "nat list"
  activeTasks :: "nat list"
  executing :: "(nat \<times> string \<times> int) list"
  decisions :: "decision list"
  isRunning :: bool

definition DEFAULT_CONFIG :: controller_config where
  "DEFAULT_CONFIG =
     \<lparr>mode = Autonomous, selfHealing = True, autoScaling = True, intelligentRouting = True,
      maxConcurrentTasks = 10, taskTimeoutMs = 300000, cfg_maxRetries = 3,
      decisionThreshold = 7 / 10, contentFiltering = False, safetyGuardrails = False,
      verboseLogging = True\<rparr>"

definition initializeDefaultCapabilities :: "capability list" where
  "initializeDefaultCapabilities =
     [\<lparr>cap_id = ''personaplex-voice'', cap_name = ''PersonaPlex Voice'', cap_type = Personaplex,
       cap_priority = 1, enabled = True, maxConcurrent = 5, currentLoad = 0, successRate = 1,
       avgLatencyMs = 100, tags = [''voice'', ''speech'', ''audio'', ''conversation'']\<rparr>,
      \<lparr>cap_id = ''agent-zero-auto'', cap_name = ''Agent Zero Autonomous'', cap_type = AgentZero,
       cap_priority = 2, enabled = True, maxConcurrent = 3, currentLoad = 0, successRate = 1,
       avgLatencyMs = 500, tags = [''autonomous'', ''code'', ''planning'', ''execution'']\<rparr>,
      \<lparr>cap_id = ''poke-research'', cap_name = ''Poke Research'', cap_type = Poke,
       cap_priority = 3, enabled = True, maxConcurrent = 5, currentLoad = 0, successRate = 1,
       avgLatencyMs = 1000, tags = [''research'', ''gmail'', ''onboarding'', ''profile'']\<rparr>]"

text \<open>The placeholder held by heap addresses that no task object occupies yet.\<close>

definition noTask :: task where
  "noTask =
     \<lparr>task_id = 0, task_type = TCustom, input = [], priority = Normal, status = Queued,
      assignedTo = None, createdAt = 0, startedAt = None, completedAt = None, result = None,
      error = None, retryCount = 0, maxRetries = 0\<rparr>"

text \<open>The constructor, with the merged configuration as its argument.\<close>

definition newController :: "controller_config \<Rightarrow> controller" where
  "newController cfg =
     \<lparr>config = cfg, capabilities = initializeDefaultCapabilities, tasks = (\<lambda>_. noTask),
      nextTask = 0, taskQueue = [], activeTasks = [], executing = [], decisions = [],
      isRunning = False\<rparr>"

section \<open>Decisions and mode control\<close>

fun calculateConfidence :: "decision_type \<Rightarrow> rat" where
  "calculateConfidence Route = 9 / 10"
| "calculateConfidence Scale = 8 / 10"
| "calculateConfidence Heal = 85 / 100"
| "calculateConfidence Optimize = 75 / 100"
| "calculateConfidence Restrict = 7 / 10"
| "calculateConfidence Unrestrict = 6 / 10"

definition makeDecision :: "controller \<Rightarrow> decision_type \<Rightarrow> string \<Rightarrow> int \<Rightarrow> controller" where
  "makeDecision s ty why now =
     s\<lparr>decisions := decisions s @
        [\<lparr>dec_type = ty, reason = why, confidence = calculateConfidence ty, timestamp = now,
          executed = (mode (config s) \<noteq> Supervised),
          requiresApproval = (mode (config s) = Supervised)\<rparr>]\<rparr>"

definition setMode :: "controller \<Rightarrow> operation_mode \<Rightarrow> int \<Rightarrow> controller" where
  "setMode s m now =
     (let c1 = (config s)\<lparr>mode := m\<rparr>;
          c2 = (if m = Unrestricted then c1\<lparr>contentFiltering := False, safetyGuardrails := False\<rparr>
                else if m = Supervised then c1\<lparr>contentFiltering := True, safetyGuardrails := True\<rparr>
                else c1)
      in makeDecision (s\<lparr>config := c2\<rparr>) Route ''Mode changed'' now)"

definition disableGuardrails :: "controller \<Rightarrow> controller" where
  "disableGuardrails s =
     s\<lparr>config := (config s)\<lparr>contentFiltering := False, safetyGuardrails := False\<rparr>\<rparr>"

section \<open>Task management\<close>

fun priorityOrder :: "priority_class \<Rightarrow> nat" where
  "priorityOrder Critical = 0"
| "priorityOrder High = 1"
| "priorityOrder Normal = 2"
| "priorityOrder Low = 3"

text \<open>\<open>Array.prototype.findIndex\<close>: the first index that satisfies, \<open>None\<close> for -1.\<close>

fun findIndex :: "('a \<Rightarrow> bool) \<Rightarrow> 'a list \<Rightarrow> nat option" where
  "findIndex P [] = None"
| "findIndex P (x # xs) =
     (if P x then Some 0 else (case findIndex P xs of None \<Rightarrow> None | Some i \<Rightarrow> Some (Suc i)))"

definition updateTask :: "nat \<Rightarrow> (task \<Rightarrow> task) \<Rightarrow> controller \<Rightarrow> controller" where
  "updateTask t f s = s\<lparr>tasks := (tasks s)(t := f (tasks s t))\<rparr>"

definition updateCapability :: "string \<Rightarrow> (capability \<Rightarrow> capability) \<Rightarrow> controller \<Rightarrow> controller" where
  "updateCapability cid f s =
     s\<lparr>capabilities := map (\<lambda>c. if cap_id c = cid then f c else c) (capabilities s)\<rparr>"

definition insertTaskByPriority :: "controller \<Rightarrow> nat \<Rightarrow> controller" where
  "insertTaskByPriority s t =
     (case findIndex
             (\<lambda>q. priorityOrder (priority (tasks s q)) > priorityOrder (priority (tasks s t)))
             (taskQueue s) of
        None \<Rightarrow> s\<lparr>taskQueue := taskQueue s @ [t]\<rparr>
      | Some insertIndex \<Rightarrow>
          s\<lparr>taskQueue := take insertIndex (taskQueue s) @ [t] @ drop insertIndex (taskQueue s)\<rparr>)"

definition blockedPatterns :: "string list" where
  "blockedPatterns = []"

text \<open>\<open>String.prototype.includes\<close>.\<close>

definition includesStr :: "string \<Rightarrow> string \<Rightarrow> bool" where
  "includesStr text pattern =
     list_ex (\<lambda>i. take (length pattern) (drop i text) = pattern) [0..<Suc (length text)]"

text \<open>The argument \<open>text\<close> is \<open>JSON.stringify(input).toLowerCase()\<close>.\<close>

definition shouldFilterContent :: "controller \<Rightarrow> string \<Rightarrow> bool" where
  "shouldFilterContent s text =
     (if mode (config s) = Unrestricted \<or> \<not> contentFiltering (config s) then False
      else list_ex (\<lambda>pattern. includesStr text pattern) blockedPatterns)"

text \<open>
  \<open>submitTask(type, input, {priority, maxRetries})\<close> at clock reading \<open>now\<close>; returns
  the new state and the task it created.
\<close>

definition submitTask ::
  "controller \<Rightarrow> task_type \<Rightarrow> string \<Rightarrow> priority_class option \<Rightarrow> rat option \<Rightarrow> int \<Rightarrow>
   controller \<times> nat" where
  "submitTask s ty inp prio retries now =
     (let t = nextTask s;
          new = \<lparr>task_id = t, task_type = ty, input = inp,
                 priority = (case prio of None \<Rightarrow> Normal | Some p \<Rightarrow> p), status = Queued,
                 assignedTo = None, createdAt = now, startedAt = None, completedAt = None,
                 result = None, error = None, retryCount = 0,
                 maxRetries = (case retries of None \<Rightarrow> cfg_maxRetries (config s) | Some m \<Rightarrow> m)\<rparr>;
          s1 = s\<lparr>tasks := (tasks s)(t := new), nextTask := Suc t\<rparr>
      in if \<not> contentFiltering (config s) \<or> mode (config s) = Unrestricted
         then (insertTaskByPriority s1 t, t)
         else if shouldFilterContent s inp
         then (updateTask t
                 (\<lambda>x. x\<lparr>status := Cancelled, error := Some ''Content filtered by guardrails''\<rparr>) s1, t)
         else (insertTaskByPriority s1 t, t))"

text \<open>
  \<open>getTask\<close>: the active map first, then the queue. \<open>getTaskRef\<close> is the object it
  finds, \<open>getTask\<close> what the caller reads from it.
\<close>

definition getTaskRef :: "controller \<Rightarrow> nat \<Rightarrow> nat option" where
  "getTaskRef s taskId =
     (case find (\<lambda>t. task_id (tasks s t) = taskId) (activeTasks s) of
        Some t \<Rightarrow> Some t
      | None \<Rightarrow> find (\<lambda>t. task_id (tasks s t) = taskId) (taskQueue s))"

definition getTask :: "controller \<Rightarrow> nat \<Rightarrow> task option" where
  "getTask s taskId = map_option (tasks s) (getTaskRef s taskId)"

definition cancelTask :: "controller \<Rightarrow> nat \<Rightarrow> controller \<times> bool" where
  "cancelTask s taskId =
     (case getTaskRef s taskId of
        None \<Rightarrow> (s, False)
      | Some t \<Rightarrow>
          if status (tasks s t) \<noteq> Completed \<and> status (tasks s t) \<noteq> Failed
          then (updateTask t (\<lambda>x. x\<lparr>status := Cancelled\<rparr>) s, True)
          else (s, False))"

section \<open>Capability selection\<close>

fun typeMapping :: "task_type \<Rightarrow> capability_type list" where
  "typeMapping TVoice = [Personaplex]"
| "typeMapping TText = [AgentZero, Poke, McpTool]"
| "typeMapping TCode = [AgentZero]"
| "typeMapping TResearch = [Poke, AgentZero]"
| "typeMapping TAutonomous = [AgentZero]"
| "typeMapping TCustom = [AgentZero, McpTool, CustomCap]"

definition matchesTaskType :: "capability \<Rightarrow> task \<Rightarrow> bool" where
  "matchesTaskType cap t = (cap_type cap \<in> set (typeMapping (task_type t)))"

definition score :: "capability \<Rightarrow> rat" where
  "score c =
     of_int (cap_priority c) * 10 + successRate c * 5 - avgLatencyMs c / 1000
       - of_int (currentLoad c)"

text \<open>
  The candidates in the order the stable sort by descending score leaves them
  (\<open>sort_key\<close> is a stable insertion sort).
\<close>

definition candidates :: "controller \<Rightarrow> nat \<Rightarrow> capability list" where
  "candidates s t =
     sort_key (\<lambda>c. - score c)
       (filter (\<lambda>cap. matchesTaskType cap (tasks s t))
          (filter (\<lambda>cap. enabled cap \<and> currentLoad cap < maxConcurrent cap) (capabilities s)))"

definition selectCapability :: "controller \<Rightarrow> nat \<Rightarrow> int \<Rightarrow> controller \<times> string option" where
  "selectCapability s t now =
     (case candidates s t of
        [] \<Rightarrow> (s, None)
      | c # cs \<Rightarrow>
          ((if intelligentRouting (config s) \<and> length (c # cs) > 1
            then makeDecision s Route ''Selected capability for task'' now else s),
           Some (cap_id c)))"

section \<open>Task processing\<close>

text \<open>How a started execution settles: the executor returns, or throws the value whose
  text (\<open>String(error)\<close>) is given.\<close>

datatype outcome = Returned | Threw string

text \<open>
  The part of \<open>executeTask\<close> that runs inside the call, up to the first \<open>await\<close>: the
  executor of the capability's family runs (only the agent-zero one changes state, by
  logging a decision) and the call is left pending.
\<close>

definition capabilityType :: "controller \<Rightarrow> string \<Rightarrow> capability_type option" where
  "capabilityType s cid = map_option cap_type (find (\<lambda>c. cap_id c = cid) (capabilities s))"

definition executeTask_begin :: "controller \<Rightarrow> nat \<Rightarrow> string \<Rightarrow> int \<Rightarrow> controller" where
  "executeTask_begin s t cid now =
     (let s1 = (if capabilityType s cid = Some AgentZero
                then makeDecision s Route ''Autonomous task routing'' now else s)
      in s1\<lparr>executing := executing s1 @ [(t, cid, now)]\<rparr>)"

fun resultType :: "capability_type option \<Rightarrow> string" where
  "resultType (Some Personaplex) = ''voice''"
| "resultType (Some AgentZero) = ''autonomous''"
| "resultType (Some Poke) = ''research''"
| "resultType (Some McpTool) = ''mcp''"
| "resultType _ = ''generic''"

definition processTaskQueue :: "controller \<Rightarrow> int \<Rightarrow> controller" where
  "processTaskQueue s now =
     (if int (length (activeTasks s)) \<ge> maxConcurrentTasks (config s) then s
      else case taskQueue s of
        [] \<Rightarrow> s
      | t # rest \<Rightarrow>
          (case selectCapability (s\<lparr>taskQueue := rest\<rparr>) t now of
             (s1, None) \<Rightarrow>
               if of_nat (retryCount (tasks s1 t)) < maxRetries (tasks s1 t)
               then (updateTask t (\<lambda>x. x\<lparr>retryCount := retryCount x + 1\<rparr>) s1)
                      \<lparr>taskQueue := taskQueue s1 @ [t]\<rparr>
               else updateTask t
                      (\<lambda>x. x\<lparr>status := Failed, error := Some ''No capable agent available''\<rparr>) s1
           | (s1, Some cid) \<Rightarrow>
               (let s2 = updateTask t
                           (\<lambda>x. x\<lparr>assignedTo := Some cid, status := Running,
                                  startedAt := Some now\<rparr>) s1;
                    s3 = s2\<lparr>activeTasks :=
                              (if t \<in> set (activeTasks s2) then activeTasks s2
                               else activeTasks s2 @ [t])\<rparr>;
                    s4 = updateCapability cid (\<lambda>c. c\<lparr>currentLoad := currentLoad c + 1\<rparr>) s3
                in executeTask_begin s4 t cid now)))"

text \<open>The \<open>finally\<close> block of \<open>executeTask\<close>.\<close>

definition executeTask_finally :: "controller \<Rightarrow> nat \<Rightarrow> string \<Rightarrow> controller" where
  "executeTask_finally s t cid =
     (let s1 = updateCapability cid (\<lambda>c. c\<lparr>currentLoad := currentLoad c - 1\<rparr>) s
      in s1\<lparr>activeTasks := removeAll t (activeTasks s1)\<rparr>)"

definition handleTaskError :: "controller \<Rightarrow> nat \<Rightarrow> string \<Rightarrow> string \<Rightarrow> int \<Rightarrow> controller" where
  "handleTaskError s t cid err now =
     (let s1 = updateCapability cid
                 (\<lambda>c. c\<lparr>currentLoad := currentLoad c - 1, successRate := successRate c * (9 / 10)\<rparr>) s
      in if of_nat (retryCount (tasks s1 t)) < maxRetries (tasks s1 t)
         then (let s2 = updateTask t (\<lambda>x. x\<lparr>retryCount := retryCount x + 1, status := Queued\<rparr>) s1;
                   s3 = s2\<lparr>activeTasks := removeAll t (activeTasks s2)\<rparr>;
                   s4 = insertTaskByPriority s3 t
               in if selfHealing (config s4)
                  then makeDecision s4 Heal ''Task retry with different capability'' now
                  else s4)
         else (let s2 = updateTask t
                          (\<lambda>x. x\<lparr>status := Failed, completedAt := Some now, error := Some err\<rparr>) s1
               in s2\<lparr>activeTasks := removeAll t (activeTasks s2)\<rparr>))"

text \<open>
  The rest of \<open>executeTask\<close> for the pending call on task \<open>t\<close>: on return the success
  bookkeeping and the \<open>finally\<close> block; on a throw the \<open>finally\<close> block and then the
  \<open>catch\<close> handler that \<open>processTaskQueue\<close> attached, \<open>handleTaskError\<close>.
\<close>

definition executeTask_settle :: "controller \<Rightarrow> nat \<Rightarrow> outcome \<Rightarrow> int \<Rightarrow> controller" where
  "executeTask_settle s t out now =
     (case find (\<lambda>e. fst e = t) (executing s) of
        None \<Rightarrow> s
      | Some (t', cid, startTime) \<Rightarrow>
          (let s0 = s\<lparr>executing := remove1 (t', cid, startTime) (executing s)\<rparr>
           in case out of
                Returned \<Rightarrow>
                  (let s1 = updateTask t
                              (\<lambda>x. x\<lparr>status := Completed, completedAt := Some now,
                                     result := Some (resultType (capabilityType s0 cid))\<rparr>) s0;
                       s2 = updateCapability cid
                              (\<lambda>c. c\<lparr>avgLatencyMs := (avgLatencyMs c + of_int (now - startTime)) / 2,
                                     successRate := successRate c * (9 / 10) + 1 / 10\<rparr>) s1
                   in executeTask_finally s2 t cid)
              | Threw err \<Rightarrow> handleTaskError (executeTask_finally s0 t cid) t cid err now))"

section \<open>Health monitoring and status\<close>

text \<open>
  \<open>monitorHealth\<close>: the pass over the capabilities, then the eviction of queued tasks
  older than the timeout. The re-enabling that it schedules for a minute later is the
  separate step \<open>reenableCapability\<close>.
\<close>

definition checkCapability :: "int \<Rightarrow> string \<Rightarrow> controller \<Rightarrow> controller" where
  "checkCapability now cid s =
     (case find (\<lambda>c. cap_id c = cid) (capabilities s) of
        None \<Rightarrow> s
      | Some c \<Rightarrow>
          if successRate c < 1 / 2 \<and> selfHealing (config s)
          then makeDecision (updateCapability cid (\<lambda>c. c\<lparr>enabled := False\<rparr>) s)
                 Heal ''Disabled underperforming capability'' now
          else s)"

definition isStale :: "controller \<Rightarrow> int \<Rightarrow> nat \<Rightarrow> bool" where
  "isStale s now t = (now - createdAt (tasks s t) > taskTimeoutMs (config s))"

definition monitorHealth :: "controller \<Rightarrow> int \<Rightarrow> controller" where
  "monitorHealth s now =
     (let s1 = fold (checkCapability now) (map cap_id (capabilities s)) s;
          staleTasks = filter (isStale s1 now) (taskQueue s1);
          s2 = fold (\<lambda>t. updateTask t
                      (\<lambda>x. x\<lparr>status := Failed, error := Some ''Task timeout in queue''\<rparr>))
                 staleTasks s1
      in s2\<lparr>taskQueue := filter (\<lambda>t. \<not> isStale s2 now t) (taskQueue s2)\<rparr>)"

definition reenableCapability :: "controller \<Rightarrow> string \<Rightarrow> controller" where
  "reenableCapability s cid =
     updateCapability cid (\<lambda>c. c\<lparr>enabled := True, successRate := 7 / 10\<rparr>) s"

record controller_status =
  st_running :: bool
  st_mode :: operation_mode
  st_queued :: nat
  st_active :: nat
  st_completed :: nat
  st_capabilities_total :: nat
  st_capabilities_enabled :: nat
  st_decisions :: nat
  st_config :: controller_config

definition getStatus :: "controller \<Rightarrow> controller_status" where
  "getStatus s =
     \<lparr>st_running = isRunning s, st_mode = mode (config s),
      st_queued = length (taskQueue s), st_active = length (activeTasks s),
      st_completed = length (filter executed (decisions s)),
      st_capabilities_total = length (capabilities s),
      st_capabilities_enabled = length (filter enabled (capabilities s)),
      st_decisions = length (decisions s), st_config = config s\<rparr>"

section \<open>Runs of the controller\<close>

text \<open>The calls that reach the controller, each with the clock reading it sees.\<close>

datatype action =
    Submit task_type string "priority_class option" "rat option"
  | Tick
  | Settle nat outcome
  | Cancel nat
  | SetMode operation_mode
  | DisableGuardrails
  | MonitorHealth
  | Reenable string

fun step :: "controller \<Rightarrow> action \<times> int \<Rightarrow> controller" where
  "step s (Submit ty inp prio retries, now) = fst (submitTask s ty inp prio retries now)"
| "step s (Tick, now) = processTaskQueue s now"
| "step s (Settle t out, now) = executeTask_settle s t out now"
| "step s (Cancel t, now) = fst (cancelTask s t)"
| "step s (SetMode m, now) = setMode s m now"
| "step s (DisableGuardrails, now) = disableGuardrails s"
| "step s (MonitorHealth, now) = monitorHealth s now"
| "step s (Reenable cid, now) = reenableCapability s cid"

definition run :: "controller \<Rightarrow> (action \<times> int) list \<Rightarrow> controller" where
  "run s acts = foldl step s acts"

text \<open>
  A sequence of \<open>submitTask\<close> calls, each given as type, input, options and clock reading.
\<close>

type_synonym submission = "task_type \<times> string \<times> priority_class option \<times> rat option \<times> int"

definition requestedPriority :: "submission \<Rightarrow> priority_class" where
  "requestedPriority r =
     (case r of (ty, inp, prio, retries, now) \<Rightarrow> (case prio of None \<Rightarrow> Normal | Some p \<Rightarrow> p))"

definition submitAll :: "controller \<Rightarrow> submission list \<Rightarrow> controller" where
  "submitAll s reqs =
     fold (\<lambda>r s. case r of (ty, inp, prio, retries, now) \<Rightarrow>
                    fst (submitTask s ty inp prio retries now)) reqs s"

text \<open>
  The dispatch loop with the source's own executors, which return at once: every tick is
  followed by the settling of the execution it started. \<open>dispatchOrder n\<close> lists the
  tasks that \<open>n\<close> ticks start, in order.
\<close>

definition settleAll :: "controller \<Rightarrow> int \<Rightarrow> controller" where
  "settleAll s now = fold (\<lambda>t s. executeTask_settle s t Returned now) (map fst (executing s)) s"

definition startedBy :: "controller \<Rightarrow> controller \<Rightarrow> nat list" where
  "startedBy s s1 = map fst (drop (length (executing s)) (executing s1))"

fun dispatchOrder :: "nat \<Rightarrow> controller \<Rightarrow> int \<Rightarrow> nat list" where
  "dispatchOrder 0 s now = []"
| "dispatchOrder (Suc n) s now =
     startedBy s (processTaskQueue s now)
       @ dispatchOrder n (settleAll (processTaskQueue s now) now) now"








text \<open>The spec's example: four submissions of priority low, critical, normal, high.\<close>

definition fourSubmissions :: "submission list" where
  "fourSubmissions =
     [(TText, ''{}'', Some Low, None, 1), (TText, ''{}'', Some Critical, None, 2),
      (TText, ''{}'', Some Normal, None, 3), (TText, ''{}'', Some High, None, 4)]"

text \<open>The tasks created so far whose status is \<open>completed\<close>.\<close>

definition completedTasks :: "controller \<Rightarrow> nat list" where
  "completedTasks s = filter (\<lambda>t. status (tasks s t) = Completed) [0..<nextTask s]"

text \<open>
  A controller whose voice capability the health monitor has disabled: a voice task with
  six retries fails seven executions, which takes the success rate of
  \<open>personaplex-voice\<close> to \<open>0.9 ^ 7 < 0.5\<close>, and then \<open>monitorHealth\<close> runs.
\<close>

definition voiceDisabled :: controller where
  "voiceDisabled =
     run (newController DEFAULT_CONFIG)
       [(Submit TVoice ''{}'' None (Some 6), 0),
        (Tick, 100), (Settle 0 (Threw ''Error: boom''), 100),
        (Tick, 200), (Settle 0 (Threw ''Error: boom''), 200),
        (Tick, 300), (Settle 0 (Threw ''Error: boom''), 300),
        (Tick, 400), (Settle 0 (Threw ''Error: boom''), 400),
        (Tick, 500), (Settle 0 (Threw ''Error: boom''), 500),
        (Tick, 600), (Settle 0 (Threw ''Error: boom''), 600),
        (Tick, 700), (Settle 0 (Threw ''Error: boom''), 700),
        (MonitorHealth, 10000)]"

text \<open>
  Two states just before a terminal failure: a voice task with no retries waits while the
  voice capability is disabled, and a voice task with no retries is being executed.
\<close>

definition voiceTaskWaiting :: controller where
  "voiceTaskWaiting = run voiceDisabled [(Submit TVoice ''{}'' None (Some 0), 10001)]"

definition voiceTaskRunning :: controller where
  "voiceTaskRunning =
     run (newController DEFAULT_CONFIG) [(Submit TVoice ''{}'' None (Some 0), 0), (Tick, 100)]"

section \<open>The service registry\<close>

text \<open>
  The part of \<open>AutoConfigManager\<close> that \<open>registerService\<close> touches: the map of
  endpoints, in insertion order, and the \<open>config_event\<close> events emitted so far.
\<close>

datatype service_type = SPersonaplex | SAgentZero | SPoke | SMcp | SWebhook | SChannel

datatype service_status = Unknown | Checking | Healthy | Degraded | Unhealthy

datatype config_event_type = Discovered | Connected | Disconnected | Healed | ErrorEvent | ConfigChanged

record service_endpoint =
  svc_id :: string
  svc_name :: string
  svc_type :: service_type
  url :: string
  svc_status :: service_status
  lastCheck :: "int option"
  latencyMs :: "int option"
  svc_config :: "string option"
  autoDiscovered :: "bool option"

record config_event =
  ev_type :: config_event_type
  ev_service :: service_endpoint
  ev_timestamp :: int
  ev_details :: "string option"

record auto_config_manager =
  services :: "(string \<times> service_endpoint) list"
  events :: "config_event list"

text \<open>\<open>Map.prototype.set\<close>: an existing key keeps its place, a new one goes last.\<close>

fun mapSet :: "'k \<Rightarrow> 'v \<Rightarrow> ('k \<times> 'v) list \<Rightarrow> ('k \<times> 'v) list" where
  "mapSet k v [] = [(k, v)]"
| "mapSet k v (e # es) = (if fst e = k then (k, v) # es else e # mapSet k v es)"

definition emitEvent ::
  "auto_config_manager \<Rightarrow> config_event_type \<Rightarrow> service_endpoint \<Rightarrow> string option \<Rightarrow> int \<Rightarrow>
   auto_config_manager" where
  "emitEvent m ty service details now =
     m\<lparr>events := events m @
        [\<lparr>ev_type = ty, ev_service = service, ev_timestamp = now, ev_details = details\<rparr>]\<rparr>"

text \<open>
  \<open>registerService\<close>. The argument has every field of an endpoint; the spread followed by
  \<open>status\<close> and \<open>lastCheck\<close> overwrites those two whatever the caller passed.
\<close>

definition registerService ::
  "auto_config_manager \<Rightarrow> service_endpoint \<Rightarrow> int \<Rightarrow> auto_config_manager" where
  "registerService m service now =
     (let endpoint = service\<lparr>svc_status := Unknown, lastCheck := None\<rparr>
      in emitEvent (m\<lparr>services := mapSet (svc_id endpoint) endpoint (services m)\<rparr>)
           ConfigChanged endpoint None now)"

text \<open>The endpoints stored under an id (\<open>getServices\<close> filtered by id).\<close>

definition servicesWithId :: "auto_config_manager \<Rightarrow> string \<Rightarrow> service_endpoint list" where
  "servicesWithId m i = map snd (filter (\<lambda>e. fst e = i) (services m))"

text \<open>An endpoint with id \<open>svc-1\<close> at a given url, as a caller could pass it.\<close>

definition exampleService :: "string \<Rightarrow> service_endpoint" where
  "exampleService u = \<lparr>svc_id = ''svc-1'', svc_name = ''Service'', svc_type = SWebhook, url = u,
      svc_status = Healthy, lastCheck = Some 5, latencyMs = None, svc_config = None,
      autoDiscovered = None\<rparr>"

section \<open>Theorems\<close>

text \<open>
  C8. \<open>setMode\<close> to unrestricted always leaves content filtering and safety guardrails
  off, and doing it twice gives the same configuration as doing it once; to supervised
  always leaves both on; to autonomous leaves both flags as they were. In particular
  supervised, then unrestricted, then autonomous ends with content filtering off.
\<close>

theorem setMode_flags:
  "contentFiltering (config (setMode s Unrestricted now)) = False \<and>
   safetyGuardrails (config (setMode s Unrestricted now)) = False \<and>
   config (setMode (setMode s Unrestricted now) Unrestricted now') =
     config (setMode s Unrestricted now) \<and>
   contentFiltering (config (setMode s Supervised now)) = True \<and>
   safetyGuardrails (config (setMode s Supervised now)) = True \<and>
   contentFiltering (config (setMode s Autonomous now)) = contentFiltering (config s) \<and>
   safetyGuardrails (config (setMode s Autonomous now)) = safetyGuardrails (config s) \<and>
   contentFiltering (config (setMode (setMode (setMode s Supervised t1) Unrestricted t2)
     Autonomous t3)) = False"
  by (simp add: setMode_def makeDecision_def)

text \<open>
  C3. The claim is that the load of the assigned capability is decremented exactly once
  when an execution finishes, also on a throw, so that it never goes below zero. On a
  fresh controller a voice task is started (load 1) and its executor throws: the
  \<open>finally\<close> block and \<open>handleTaskError\<close> both decrement, and the load of
  \<open>personaplex-voice\<close> ends at -1 with nothing in flight.
\<close>

theorem currentLoad_negative_after_throw:
  "map currentLoad (capabilities (run (newController DEFAULT_CONFIG)
      [(Submit TVoice ''{}'' None (Some 0), 0), (Tick, 100)])) = [1, 0, 0] \<and>
   executing (run (newController DEFAULT_CONFIG)
      [(Submit TVoice ''{}'' None (Some 0), 0), (Tick, 100)]) = [(0, ''personaplex-voice'', 100)] \<and>
   map currentLoad (capabilities (run (newController DEFAULT_CONFIG)
      [(Submit TVoice ''{}'' None (Some 0), 0), (Tick, 100),
       (Settle 0 (Threw ''Error: boom''), 101)])) = [- 1, 0, 0] \<and>
   executing (run (newController DEFAULT_CONFIG)
      [(Submit TVoice ''{}'' None (Some 0), 0), (Tick, 100),
       (Settle 0 (Threw ''Error: boom''), 101)]) = []"
  by code_simp

text \<open>
  C4. The claim is that a cancelled task is never touched again. A queued text task is
  cancelled; \<open>cancelTask\<close> leaves it in the queue, the next tick of the dispatch loop
  starts it (status running), and when its executor returns it is completed.
\<close>

theorem cancelled_task_is_dispatched:
  "status (tasks (run (newController DEFAULT_CONFIG)
      [(Submit TText ''{}'' None None, 0), (Cancel 0, 1)]) 0) = Cancelled \<and>
   taskQueue (run (newController DEFAULT_CONFIG)
      [(Submit TText ''{}'' None None, 0), (Cancel 0, 1)]) = [0] \<and>
   status (tasks (run (newController DEFAULT_CONFIG)
      [(Submit TText ''{}'' None None, 0), (Cancel 0, 1), (Tick, 100)]) 0) = Running \<and>
   executing (run (newController DEFAULT_CONFIG)
      [(Submit TText ''{}'' None None, 0), (Cancel 0, 1), (Tick, 100)]) = [(0, ''poke-research'', 100)] \<and>
   status (tasks (run (newController DEFAULT_CONFIG)
      [(Submit TText ''{}'' None None, 0), (Cancel 0, 1), (Tick, 100),
       (Settle 0 Returned, 101)]) 0) = Completed"
  by code_simp

text \<open>
  C5. The claim is that \<open>completedAt\<close> is set exactly when the status is completed,
  failed or cancelled. It stays unset on a task cancelled by \<open>cancelTask\<close>, on a task
  failed by the queue timeout, and on a task failed for lack of a capable agent.
\<close>

theorem completedAt_unset_on_terminal_status:
  "status (tasks (run (newController DEFAULT_CONFIG)
      [(Submit TText ''{}'' None None, 0), (Cancel 0, 1)]) 0) = Cancelled \<and>
   completedAt (tasks (run (newController DEFAULT_CONFIG)
      [(Submit TText ''{}'' None None, 0), (Cancel 0, 1)]) 0) = None \<and>
   status (tasks (run (newController DEFAULT_CONFIG)
      [(Submit TText ''{}'' None None, 0), (MonitorHealth, 300001)]) 0) = Failed \<and>
   completedAt (tasks (run (newController DEFAULT_CONFIG)
      [(Submit TText ''{}'' None None, 0), (MonitorHealth, 300001)]) 0) = None \<and>
   status (tasks (run voiceDisabled
      [(Submit TVoice ''{}'' None (Some 0), 10001), (Tick, 10100)]) 1) = Failed \<and>
   error (tasks (run voiceDisabled
      [(Submit TVoice ''{}'' None (Some 0), 10001), (Tick, 10100)]) 1) =
     Some ''No capable agent available'' \<and>
   completedAt (tasks (run voiceDisabled
      [(Submit TVoice ''{}'' None (Some 0), 10001), (Tick, 10100)]) 1) = None"
  by code_simp

text \<open>
  C7. The claim is that a task popped when no capability is available goes back to the
  end of its own priority class. With the voice capability disabled, a critical voice
  task and then a normal text task are queued (critical first). The tick pops the
  critical task, finds no capability and pushes it to the end of the whole queue, behind
  the normal task; the next tick starts the normal task while the critical one waits.
\<close>

theorem requeue_goes_to_back_of_whole_queue:
  "taskQueue (run voiceDisabled
      [(Submit TVoice ''{}'' (Some Critical) None, 10001),
       (Submit TText ''{}'' (Some Normal) None, 10002)]) = [1, 2] \<and>
   taskQueue (run voiceDisabled
      [(Submit TVoice ''{}'' (Some Critical) None, 10001),
       (Submit TText ''{}'' (Some Normal) None, 10002), (Tick, 10100)]) = [2, 1] \<and>
   retryCount (tasks (run voiceDisabled
      [(Submit TVoice ''{}'' (Some Critical) None, 10001),
       (Submit TText ''{}'' (Some Normal) None, 10002), (Tick, 10100)]) 1) = 1 \<and>
   status (tasks (run voiceDisabled
      [(Submit TVoice ''{}'' (Some Critical) None, 10001),
       (Submit TText ''{}'' (Some Normal) None, 10002), (Tick, 10100), (Tick, 10200)]) 2) = Running \<and>
   status (tasks (run voiceDisabled
      [(Submit TVoice ''{}'' (Some Critical) None, 10001),
       (Submit TText ''{}'' (Some Normal) None, 10002), (Tick, 10100), (Tick, 10200)]) 1) = Queued \<and>
   taskQueue (run voiceDisabled
      [(Submit TVoice ''{}'' (Some Critical) None, 10001),
       (Submit TText ''{}'' (Some Normal) None, 10002), (Tick, 10100), (Tick, 10200)]) = [1]"
  by code_simp

text \<open>
  C10. The \<open>completed\<close> figure of \<open>getStatus\<close> is the number of logged decisions
  whose \<open>executed\<close> flag is set, in every state. It is not the number of completed
  tasks: a mode change on a fresh controller takes it to 1 with no task completed, and
  under supervised mode a voice task completes while it stays 0.
\<close>

theorem status_completed_counts_executed_decisions:
  "st_completed (getStatus s) = length (filter executed (decisions s)) \<and>
   st_completed (getStatus (run (newController DEFAULT_CONFIG) [(SetMode Unrestricted, 0)])) = 1 \<and>
   completedTasks (run (newController DEFAULT_CONFIG) [(SetMode Unrestricted, 0)]) = [] \<and>
   st_completed (getStatus (run (newController DEFAULT_CONFIG)
      [(SetMode Supervised, 0), (Submit TVoice ''{}'' None None, 1), (Tick, 100),
       (Settle 0 Returned, 101)])) = 0 \<and>
   completedTasks (run (newController DEFAULT_CONFIG)
      [(SetMode Supervised, 0), (Submit TVoice ''{}'' None None, 1), (Tick, 100),
       (Settle 0 Returned, 101)]) = [0]"
proof -
  have general: "st_completed (getStatus s) = length (filter executed (decisions s))"
    by (simp add: getStatus_def)
  have concrete:
    "st_completed (getStatus (run (newController DEFAULT_CONFIG) [(SetMode Unrestricted, 0)])) = 1 \<and>
     completedTasks (run (newController DEFAULT_CONFIG) [(SetMode Unrestricted, 0)]) = [] \<and>
     st_completed (getStatus (run (newController DEFAULT_CONFIG)
        [(SetMode Supervised, 0), (Submit TVoice ''{}'' None None, 1), (Tick, 100),
         (Settle 0 Returned, 101)])) = 0 \<and>
     completedTasks (run (newController DEFAULT_CONFIG)
        [(SetMode Supervised, 0), (Submit TVoice ''{}'' None None, 1), (Tick, 100),
         (Settle 0 Returned, 101)]) = [0]"
    by code_simp
  from general concrete show ?thesis by blast
qed

lemma mapSet_keys: "fst ` set (mapSet k v es) = insert k (fst ` set es)"
  by (induction es) auto

lemma mapSet_distinct: "distinct (map fst es) \<Longrightarrow> distinct (map fst (mapSet k v es))"
proof (induction es)
  case Nil
  then show ?case by simp
next
  case (Cons e es)
  then show ?case
    using mapSet_keys [of k v es] by (auto simp: image_iff)
qed

lemma mapSet_lookup:
  "distinct (map fst es) \<Longrightarrow> map snd (filter (\<lambda>e. fst e = k) (mapSet k v es)) = [v]"
proof (induction es)
  case Nil
  then show ?case by simp
next
  case (Cons e es)
  show ?case
  proof (cases "fst e = k")
    case True
    with Cons.prems have "filter (\<lambda>e. fst e = k) es = []"
      by (auto simp: filter_empty_conv image_iff)
    with True show ?thesis by simp
  next
    case False
    with Cons show ?thesis by simp
  qed
qed

lemma mapSet_twice: "mapSet k v (mapSet k w es) = mapSet k v es"
  by (induction es) auto

text \<open>
  C9. \<open>registerService\<close> is an upsert keyed by id. After two calls with the same id,
  whatever the other fields, exactly one endpoint is stored under that id: the second
  call's, with status unknown and \<open>lastCheck\<close> cleared; the map is the one a single
  call with the second endpoint gives; and each call has emitted one
  \<open>config_changed\<close> event. The keys of the map are distinct, as in any \<open>Map\<close>.
\<close>

theorem registerService_upsert:
  assumes keys: "distinct (map fst (services m))" and same: "svc_id a = svc_id b"
  shows "servicesWithId (registerService (registerService m a t1) b t2) (svc_id b) =
           [b\<lparr>svc_status := Unknown, lastCheck := None\<rparr>] \<and>
         services (registerService (registerService m a t1) b t2) = services (registerService m b t2) \<and>
         events (registerService (registerService m a t1) b t2) =
           events m @
             [\<lparr>ev_type = ConfigChanged, ev_service = a\<lparr>svc_status := Unknown, lastCheck := None\<rparr>,
               ev_timestamp = t1, ev_details = None\<rparr>,
              \<lparr>ev_type = ConfigChanged, ev_service = b\<lparr>svc_status := Unknown, lastCheck := None\<rparr>,
               ev_timestamp = t2, ev_details = None\<rparr>]"
proof -
  have d: "distinct (map fst (services (registerService m a t1)))"
    using keys by (simp add: registerService_def emitEvent_def mapSet_distinct Let_def)
  have one: "servicesWithId (registerService (registerService m a t1) b t2) (svc_id b) =
           [b\<lparr>svc_status := Unknown, lastCheck := None\<rparr>]"
    using mapSet_lookup [OF d, of "svc_id b" "b\<lparr>svc_status := Unknown, lastCheck := None\<rparr>"]
    by (simp add: registerService_def emitEvent_def servicesWithId_def Let_def)
  have idem: "services (registerService (registerService m a t1) b t2) = services (registerService m b t2)"
    using same by (simp add: registerService_def emitEvent_def mapSet_twice Let_def)
  have ev: "events (registerService (registerService m a t1) b t2) =
           events m @
             [\<lparr>ev_type = ConfigChanged, ev_service = a\<lparr>svc_status := Unknown, lastCheck := None\<rparr>,
               ev_timestamp = t1, ev_details = None\<rparr>,
              \<lparr>ev_type = ConfigChanged, ev_service = b\<lparr>svc_status := Unknown, lastCheck := None\<rparr>,
               ev_timestamp = t2, ev_details = None\<rparr>]"
    by (simp add: registerService_def emitEvent_def Let_def)
  from one idem ev show ?thesis by blast
qed

theorem registerService_upsert_witness:
  "distinct (map fst (services \<lparr>services = [], events = []\<rparr>)) \<and>
   svc_id (exampleService ''http://a'') = svc_id (exampleService ''http://b'') \<and>
   map (\<lambda>e. (url e, svc_status e, lastCheck e))
     (servicesWithId (registerService (registerService \<lparr>services = [], events = []\<rparr>
        (exampleService ''http://a'') 1) (exampleService ''http://b'') 2) ''svc-1'') = [(''http://b'', Unknown, None)] \<and>
   map ev_type (events (registerService (registerService \<lparr>services = [], events = []\<rparr>
        (exampleService ''http://a'') 1) (exampleService ''http://b'') 2)) = [ConfigChanged, ConfigChanged]"
proof -
  have h1: "distinct (map fst (services \<lparr>services = [], events = []\<rparr>))" by simp
  have h2: "svc_id (exampleService ''http://a'') = svc_id (exampleService ''http://b'')" by (simp add: exampleService_def)
  from registerService_upsert [OF h1 h2, of 1 2] h1 h2
  show ?thesis by (simp add: exampleService_def)
qed

lemma findIndex_insert:
  "(case findIndex P q of None \<Rightarrow> q @ [t] | Some i \<Rightarrow> take i q @ [t] @ drop i q) =
     takeWhile (\<lambda>x. \<not> P x) q @ t # dropWhile (\<lambda>x. \<not> P x) q"
  by (induction q) (auto split: option.splits)

lemma taskQueue_insertTaskByPriority:
  "taskQueue (insertTaskByPriority s t) =
     takeWhile (\<lambda>x. \<not> priorityOrder (priority (tasks s t)) < priorityOrder (priority (tasks s x)))
       (taskQueue s)
     @ t # dropWhile (\<lambda>x. \<not> priorityOrder (priority (tasks s t)) < priorityOrder (priority (tasks s x)))
       (taskQueue s)"
  using findIndex_insert [where P = "\<lambda>q. priorityOrder (priority (tasks s q)) > priorityOrder (priority (tasks s t))"
      and q = "taskQueue s" and t = t]
  by (simp add: insertTaskByPriority_def split: option.splits)

lemma insertTaskByPriority_frame:
  "tasks (insertTaskByPriority s t) = tasks s"
  "nextTask (insertTaskByPriority s t) = nextTask s"
  "capabilities (insertTaskByPriority s t) = capabilities s"
  "config (insertTaskByPriority s t) = config s"
  "activeTasks (insertTaskByPriority s t) = activeTasks s"
  "executing (insertTaskByPriority s t) = executing s"
  "decisions (insertTaskByPriority s t) = decisions s"
  by (simp_all add: insertTaskByPriority_def split: option.splits)

lemma insert_keeps_sorted:
  fixes r :: "'a \<Rightarrow> nat"
  assumes "sorted (map r q)"
  shows "sorted (map r (takeWhile (\<lambda>x. \<not> r t < r x) q @ t # dropWhile (\<lambda>x. \<not> r t < r x) q))"
proof -
  have "sorted_wrt (\<lambda>a b. r a \<le> r b) q \<Longrightarrow>
        sorted_wrt (\<lambda>a b. r a \<le> r b)
          (takeWhile (\<lambda>x. \<not> r t < r x) q @ t # dropWhile (\<lambda>x. \<not> r t < r x) q)"
  proof (induction q)
    case Nil
    then show ?case by simp
  next
    case (Cons x xs)
    show ?case
    proof (cases "r t < r x")
      case True
      with Cons.prems show ?thesis by (auto simp: less_imp_le)
    next
      case False
      have mem: "set (takeWhile (\<lambda>x. \<not> r t < r x) xs @ t # dropWhile (\<lambda>x. \<not> r t < r x) xs) =
            insert t (set xs)"
        by (metis list.simps(15) set_append takeWhile_dropWhile_id Un_insert_right)
      from Cons have "sorted_wrt (\<lambda>a b. r a \<le> r b)
          (takeWhile (\<lambda>x. \<not> r t < r x) xs @ t # dropWhile (\<lambda>x. \<not> r t < r x) xs)"
        by simp
      moreover have "\<forall>y\<in>insert t (set xs). r x \<le> r y"
        using False Cons.prems by auto
      ultimately have "sorted_wrt (\<lambda>a b. r a \<le> r b)
          (x # (takeWhile (\<lambda>x. \<not> r t < r x) xs @ t # dropWhile (\<lambda>x. \<not> r t < r x) xs))"
        using mem by (simp only: sorted_wrt.simps)
      with False show ?thesis by simp
    qed
  qed
  with assms show ?thesis by (simp only: sorted_map)
qed

lemma insert_keeps_class_order:
  fixes r :: "'a \<Rightarrow> nat"
  assumes "sorted (map r q)" and "\<And>x. c x = c t \<Longrightarrow> r x = r t"
  shows "filter (\<lambda>x. c x = p) (takeWhile (\<lambda>x. \<not> r t < r x) q @ t # dropWhile (\<lambda>x. \<not> r t < r x) q) =
         filter (\<lambda>x. c x = p) q @ (if c t = p then [t] else [])"
  using assms(1)
proof (induction q)
  case Nil
  then show ?case by simp
next
  case (Cons x xs)
  show ?case
  proof (cases "r t < r x")
    case True
    have "\<forall>y\<in>set (x # xs). c y \<noteq> c t"
    proof
      fix y assume "y \<in> set (x # xs)"
      with Cons.prems have "r x \<le> r y" by auto
      with True have "r y \<noteq> r t" by simp
      with assms(2) show "c y \<noteq> c t" by blast
    qed
    then have "c t = p \<Longrightarrow> filter (\<lambda>x. c x = p) (x # xs) = []"
      by (auto simp: filter_empty_conv)
    with True show ?thesis by auto
  next
    case False
    with Cons show ?thesis by simp
  qed
qed

lemma shouldFilterContent_False: "shouldFilterContent s inp = False"
  by (simp add: shouldFilterContent_def blockedPatterns_def)

lemma submitTask_eq:
  "submitTask s ty inp prio retries now =
     (insertTaskByPriority
        (s\<lparr>tasks := (tasks s)(nextTask s :=
              \<lparr>task_id = nextTask s, task_type = ty, input = inp,
                priority = (case prio of None \<Rightarrow> Normal | Some p \<Rightarrow> p), status = Queued,
                assignedTo = None, createdAt = now, startedAt = None, completedAt = None,
                result = None, error = None, retryCount = 0,
                maxRetries = (case retries of None \<Rightarrow> cfg_maxRetries (config s) | Some m \<Rightarrow> m)\<rparr>),
            nextTask := Suc (nextTask s)\<rparr>) (nextTask s), nextTask s)"
  by (simp add: submitTask_def Let_def shouldFilterContent_False)

lemma submitAll_snoc:
  "submitAll s (rs @ [(ty, inp, prio, retries, now)]) =
     fst (submitTask (submitAll s rs) ty inp prio retries now)"
  by (simp add: submitAll_def)

lemma submitAll_invariant:
  "nextTask (submitAll (newController cfg) rs) = length rs \<and>
   (\<forall>t<length rs. priority (tasks (submitAll (newController cfg) rs) t) = requestedPriority (rs ! t)) \<and>
   sorted (map (\<lambda>t. priorityOrder (priority (tasks (submitAll (newController cfg) rs) t)))
     (taskQueue (submitAll (newController cfg) rs))) \<and>
   (\<forall>p. filter (\<lambda>t. priority (tasks (submitAll (newController cfg) rs) t) = p)
          (taskQueue (submitAll (newController cfg) rs)) =
        filter (\<lambda>t. priority (tasks (submitAll (newController cfg) rs) t) = p) [0..<length rs]) \<and>
   (\<forall>x\<in>set (taskQueue (submitAll (newController cfg) rs)). x < length rs) \<and>
   capabilities (submitAll (newController cfg) rs) = initializeDefaultCapabilities \<and>
   config (submitAll (newController cfg) rs) = cfg \<and>
   executing (submitAll (newController cfg) rs) = [] \<and>
   activeTasks (submitAll (newController cfg) rs) = []"
proof (induction rs rule: rev_induct)
  case Nil
  show ?case by (simp add: submitAll_def newController_def)
next
  case (snoc r rs)
  obtain ty inp prio retries now where r: "r = (ty, inp, prio, retries, now)"
    by (cases r) auto
  define s where "s = submitAll (newController cfg) rs"
  define n where "n = length rs"
  define new where "new =
      \<lparr>task_id = nextTask s, task_type = ty, input = inp,
        priority = (case prio of None \<Rightarrow> Normal | Some p \<Rightarrow> p), status = Queued,
        assignedTo = None, createdAt = now, startedAt = None, completedAt = None,
        result = None, error = None, retryCount = 0,
        maxRetries = (case retries of None \<Rightarrow> cfg_maxRetries (config s) | Some m \<Rightarrow> m)\<rparr>"
  define s1 where "s1 = s\<lparr>tasks := (tasks s)(n := new), nextTask := Suc n\<rparr>"
  define s' where "s' = insertTaskByPriority s1 n"
  define c where "c = (\<lambda>t. priority (tasks s1 t))"
  define rk where "rk = (\<lambda>t. priorityOrder (c t))"
  from snoc have
    nx: "nextTask s = n" and
    pr: "\<forall>t<n. priority (tasks s t) = requestedPriority (rs ! t)" and
    so: "sorted (map (\<lambda>t. priorityOrder (priority (tasks s t))) (taskQueue s))" and
    fi: "\<And>p. filter (\<lambda>t. priority (tasks s t) = p) (taskQueue s) =
           filter (\<lambda>t. priority (tasks s t) = p) [0..<n]" and
    bd: "\<forall>x\<in>set (taskQueue s). x < n" and
    rest: "capabilities s = initializeDefaultCapabilities" "config s = cfg" "executing s = []"
      "activeTasks s = []"
    by (simp_all add: s_def n_def)
  have step: "submitAll (newController cfg) (rs @ [r]) = s'"
    by (simp add: r submitAll_snoc submitTask_eq s'_def s1_def new_def s_def [symmetric] nx)
  have c_old: "\<And>x. x \<noteq> n \<Longrightarrow> c x = priority (tasks s x)"
    by (simp add: c_def s1_def)
  have c_new: "c n = requestedPriority r"
    by (simp add: c_def s1_def new_def r requestedPriority_def)
  have q1: "taskQueue s1 = taskQueue s" and t': "tasks s' = tasks s1"
    by (simp_all add: s1_def s'_def insertTaskByPriority_frame)
  have queue: "taskQueue s' =
      takeWhile (\<lambda>x. \<not> rk n < rk x) (taskQueue s) @ n # dropWhile (\<lambda>x. \<not> rk n < rk x) (taskQueue s)"
    by (simp add: s'_def taskQueue_insertTaskByPriority q1 rk_def c_def)
  have so1: "sorted (map rk (taskQueue s))"
  proof -
    have eq: "map rk (taskQueue s) = map (\<lambda>t. priorityOrder (priority (tasks s t))) (taskQueue s)"
      using bd by (intro map_cong) (auto simp: rk_def c_old)
    show ?thesis unfolding eq by (rule so)
  qed
  have sorted': "sorted (map rk (taskQueue s'))"
    unfolding queue by (rule insert_keeps_sorted [OF so1])
  have class': "filter (\<lambda>x. c x = p) (taskQueue s') = filter (\<lambda>x. c x = p) [0..<Suc n]" for p
  proof -
    have "filter (\<lambda>x. c x = p) (taskQueue s') =
          filter (\<lambda>x. c x = p) (taskQueue s) @ (if c n = p then [n] else [])"
      unfolding queue by (rule insert_keeps_class_order [OF so1]) (simp add: rk_def)
    also have "filter (\<lambda>x. c x = p) (taskQueue s) = filter (\<lambda>t. priority (tasks s t) = p) (taskQueue s)"
      using bd by (intro filter_cong) (auto simp: c_old)
    also have "\<dots> = filter (\<lambda>t. priority (tasks s t) = p) [0..<n]" by (rule fi)
    also have "\<dots> = filter (\<lambda>x. c x = p) [0..<n]"
      by (intro filter_cong) (auto simp: c_old)
    finally show ?thesis by simp
  qed
  have bd': "\<forall>x\<in>set (taskQueue s'). x < Suc n"
  proof -
    have "set (taskQueue s') = insert n (set (taskQueue s))"
      unfolding queue by (metis list.simps(15) set_append takeWhile_dropWhile_id Un_insert_right)
    with bd show ?thesis by auto
  qed
  have pr': "\<forall>t<Suc n. c t = requestedPriority ((rs @ [r]) ! t)"
  proof (intro allI impI)
    fix t assume "t < Suc n"
    show "c t = requestedPriority ((rs @ [r]) ! t)"
    proof (cases "t = n")
      case True
      then show ?thesis using c_new by (simp add: n_def)
    next
      case False
      with \<open>t < Suc n\<close> have "t < n" by simp
      with pr False show ?thesis by (simp add: c_old n_def nth_append)
    qed
  qed
  have frame: "nextTask s' = Suc n" "capabilities s' = initializeDefaultCapabilities"
      "config s' = cfg" "executing s' = []" "activeTasks s' = []"
    using rest by (simp_all add: s'_def s1_def insertTaskByPriority_frame)
  show ?case
    unfolding step using sorted' class' bd' pr' frame
    by (simp add: t' rk_def c_def n_def)
qed

lemma candidates_nonempty:
  assumes "c \<in> set (capabilities s)" "enabled c" "currentLoad c < maxConcurrent c"
    "matchesTaskType c (tasks s t)"
  shows "candidates s t \<noteq> []"
proof -
  from assms have "c \<in> set (candidates s t)" by (simp add: candidates_def)
  then show ?thesis by auto
qed

lemma selectCapability_None:
  "candidates s t = [] \<Longrightarrow> selectCapability s t now = (s, None)"
  by (simp add: selectCapability_def)

lemma selectCapability_Some:
  assumes "candidates s t \<noteq> []"
  obtains cid ds where "selectCapability s t now = (s\<lparr>decisions := decisions s @ ds\<rparr>, Some cid)"
proof (cases "candidates s t")
  case Nil
  with assms show ?thesis by simp
next
  case (Cons c cs)
  show ?thesis
  proof (cases "intelligentRouting (config s) \<and> length (c # cs) > 1")
    case True
    with Cons have "selectCapability s t now =
        (s\<lparr>decisions := decisions s @
           [\<lparr>dec_type = Route, reason = ''Selected capability for task'',
             confidence = calculateConfidence Route, timestamp = now,
             executed = (mode (config s) \<noteq> Supervised),
             requiresApproval = (mode (config s) = Supervised)\<rparr>]\<rparr>, Some (cap_id c))"
      by (simp add: selectCapability_def makeDecision_def)
    then show ?thesis by (rule that)
  next
    case False
    with Cons have "selectCapability s t now = (s\<lparr>decisions := decisions s @ []\<rparr>, Some (cap_id c))"
      by (auto simp add: selectCapability_def)
    then show ?thesis by (rule that)
  qed
qed

lemma candidates_frame:
  "candidates (s\<lparr>taskQueue := q\<rparr>) t = candidates s t"
  by (simp add: candidates_def)

text \<open>What a tick does when it finds a capability.\<close>

lemma processTaskQueue_dispatch:
  assumes "int (length (activeTasks s)) < maxConcurrentTasks (config s)"
    and "taskQueue s = t # q" and "candidates s t \<noteq> []"
  obtains cid where
    "taskQueue (processTaskQueue s now) = q"
    "executing (processTaskQueue s now) = executing s @ [(t, cid, now)]"
    "activeTasks (processTaskQueue s now) =
       (if t \<in> set (activeTasks s) then activeTasks s else activeTasks s @ [t])"
    "capabilities (processTaskQueue s now) =
       map (\<lambda>c. if cap_id c = cid then c\<lparr>currentLoad := currentLoad c + 1\<rparr> else c) (capabilities s)"
    "config (processTaskQueue s now) = config s"
    "nextTask (processTaskQueue s now) = nextTask s"
    "tasks (processTaskQueue s now) =
       (tasks s)(t := (tasks s t)\<lparr>assignedTo := Some cid, status := Running, startedAt := Some now\<rparr>)"
proof -
  from assms(3) have "candidates (s\<lparr>taskQueue := q\<rparr>) t \<noteq> []" by (simp add: candidates_frame)
  then obtain cid ds where sel:
    "selectCapability (s\<lparr>taskQueue := q\<rparr>) t now =
       (s\<lparr>taskQueue := q\<rparr>\<lparr>decisions := decisions (s\<lparr>taskQueue := q\<rparr>) @ ds\<rparr>, Some cid)"
    by (rule selectCapability_Some)
  show ?thesis
  proof (rule that [of cid])
    show "taskQueue (processTaskQueue s now) = q"
      using assms(1,2) sel
      by (simp add: processTaskQueue_def updateTask_def updateCapability_def
          executeTask_begin_def makeDecision_def Let_def)
    show "executing (processTaskQueue s now) = executing s @ [(t, cid, now)]"
      using assms(1,2) sel
      by (simp add: processTaskQueue_def updateTask_def updateCapability_def
          executeTask_begin_def makeDecision_def Let_def)
    show "activeTasks (processTaskQueue s now) =
       (if t \<in> set (activeTasks s) then activeTasks s else activeTasks s @ [t])"
      using assms(1,2) sel
      by (simp add: processTaskQueue_def updateTask_def updateCapability_def
          executeTask_begin_def makeDecision_def Let_def)
    show "capabilities (processTaskQueue s now) =
       map (\<lambda>c. if cap_id c = cid then c\<lparr>currentLoad := currentLoad c + 1\<rparr> else c) (capabilities s)"
      using assms(1,2) sel
      by (simp add: processTaskQueue_def updateTask_def updateCapability_def
          executeTask_begin_def makeDecision_def Let_def)
    show "config (processTaskQueue s now) = config s"
      using assms(1,2) sel
      by (simp add: processTaskQueue_def updateTask_def updateCapability_def
          executeTask_begin_def makeDecision_def Let_def)
    show "nextTask (processTaskQueue s now) = nextTask s"
      using assms(1,2) sel
      by (simp add: processTaskQueue_def updateTask_def updateCapability_def
          executeTask_begin_def makeDecision_def Let_def)
    show "tasks (processTaskQueue s now) =
       (tasks s)(t := (tasks s t)\<lparr>assignedTo := Some cid, status := Running, startedAt := Some now\<rparr>)"
      using assms(1,2) sel
      by (simp add: processTaskQueue_def updateTask_def updateCapability_def
          executeTask_begin_def makeDecision_def Let_def)
  qed
qed

text \<open>What the settling of a pending execution by a return does.\<close>

lemma executeTask_settle_Returned:
  assumes "find (\<lambda>e. fst e = t) (executing s) = Some (t, cid, st)"
  shows
    "taskQueue (executeTask_settle s t Returned now) = taskQueue s"
    "executing (executeTask_settle s t Returned now) = remove1 (t, cid, st) (executing s)"
    "activeTasks (executeTask_settle s t Returned now) = removeAll t (activeTasks s)"
    "capabilities (executeTask_settle s t Returned now) =
       map (\<lambda>c. if cap_id c = cid then c\<lparr>currentLoad := currentLoad c - 1\<rparr> else c)
         (map (\<lambda>c. if cap_id c = cid
                    then c\<lparr>avgLatencyMs := (avgLatencyMs c + of_int (now - st)) / 2,
                           successRate := successRate c * (9 / 10) + 1 / 10\<rparr>
                    else c) (capabilities s))"
    "config (executeTask_settle s t Returned now) = config s"
    "nextTask (executeTask_settle s t Returned now) = nextTask s"
    "\<And>u. priority (tasks (executeTask_settle s t Returned now) u) = priority (tasks s u)"
  using assms
  by (simp_all add: executeTask_settle_def executeTask_finally_def updateTask_def
      updateCapability_def Let_def)

lemma default_types_cover:
  assumes "map cap_type caps = [Personaplex, AgentZero, Poke]"
  obtains c where "c \<in> set caps" "cap_type c \<in> set (typeMapping ty)"
proof -
  have "Personaplex \<in> set (map cap_type caps)" "AgentZero \<in> set (map cap_type caps)"
    by (simp_all add: assms)
  then obtain c1 c2 where "c1 \<in> set caps" "cap_type c1 = Personaplex"
      "c2 \<in> set caps" "cap_type c2 = AgentZero"
    by auto
  then show ?thesis
    by (cases ty) (auto intro: that)
qed

lemma tick_and_settle:
  assumes ex: "executing s = []" and ac: "activeTasks s = []"
    and mx: "0 < maxConcurrentTasks (config s)"
    and rd: "\<forall>c\<in>set (capabilities s). enabled c \<and> currentLoad c = 0 \<and> 0 < maxConcurrent c"
    and ty: "map cap_type (capabilities s) = [Personaplex, AgentZero, Poke]"
    and qu: "taskQueue s = t # q"
  shows "startedBy s (processTaskQueue s now) = [t]"
    and "executing (settleAll (processTaskQueue s now) now) = []"
    and "activeTasks (settleAll (processTaskQueue s now) now) = []"
    and "config (settleAll (processTaskQueue s now) now) = config s"
    and "\<forall>c\<in>set (capabilities (settleAll (processTaskQueue s now) now)).
           enabled c \<and> currentLoad c = 0 \<and> 0 < maxConcurrent c"
    and "map cap_type (capabilities (settleAll (processTaskQueue s now) now)) =
           [Personaplex, AgentZero, Poke]"
    and "taskQueue (settleAll (processTaskQueue s now) now) = q"
proof -
  obtain c where c: "c \<in> set (capabilities s)" "cap_type c \<in> set (typeMapping (task_type (tasks s t)))"
    using default_types_cover [OF ty] by blast
  with rd have cand: "candidates s t \<noteq> []"
    by (intro candidates_nonempty [of c]) (auto simp: matchesTaskType_def)
  have act: "int (length (activeTasks s)) < maxConcurrentTasks (config s)"
    using ac mx by simp
  obtain cid where tick:
    "taskQueue (processTaskQueue s now) = q"
    "executing (processTaskQueue s now) = executing s @ [(t, cid, now)]"
    "activeTasks (processTaskQueue s now) =
       (if t \<in> set (activeTasks s) then activeTasks s else activeTasks s @ [t])"
    "capabilities (processTaskQueue s now) =
       map (\<lambda>c. if cap_id c = cid then c\<lparr>currentLoad := currentLoad c + 1\<rparr> else c) (capabilities s)"
    "config (processTaskQueue s now) = config s"
    "nextTask (processTaskQueue s now) = nextTask s"
    "tasks (processTaskQueue s now) =
       (tasks s)(t := (tasks s t)\<lparr>assignedTo := Some cid, status := Running, startedAt := Some now\<rparr>)"
    by (rule processTaskQueue_dispatch [OF act qu cand, of now])
  define s1 where "s1 = processTaskQueue s now"
  have e1: "executing s1 = [(t, cid, now)]" and a1: "activeTasks s1 = [t]"
    using tick ex ac by (simp_all add: s1_def)
  have f: "find (\<lambda>e. fst e = t) (executing s1) = Some (t, cid, now)"
    by (simp add: e1)
  have all: "settleAll s1 now = executeTask_settle s1 t Returned now"
    by (simp add: settleAll_def e1)
  note settle = executeTask_settle_Returned [OF f, of now]
  show "startedBy s (processTaskQueue s now) = [t]"
    using e1 ex by (simp add: s1_def startedBy_def)
  show "executing (settleAll (processTaskQueue s now) now) = []"
    unfolding s1_def [symmetric] all settle by (simp add: e1)
  show "activeTasks (settleAll (processTaskQueue s now) now) = []"
    unfolding s1_def [symmetric] all settle by (simp add: a1)
  show "config (settleAll (processTaskQueue s now) now) = config s"
    unfolding s1_def [symmetric] all settle by (simp add: s1_def tick)
  show "taskQueue (settleAll (processTaskQueue s now) now) = q"
    unfolding s1_def [symmetric] all settle by (simp add: s1_def tick)
  show "\<forall>c\<in>set (capabilities (settleAll (processTaskQueue s now) now)).
           enabled c \<and> currentLoad c = 0 \<and> 0 < maxConcurrent c"
    unfolding s1_def [symmetric] all settle using rd by (auto simp: s1_def tick)
  show "map cap_type (capabilities (settleAll (processTaskQueue s now) now)) =
           [Personaplex, AgentZero, Poke]"
  proof -
    have "map cap_type (capabilities (settleAll (processTaskQueue s now) now)) =
          map cap_type (capabilities s)"
      unfolding s1_def [symmetric] all settle by (simp add: s1_def tick comp_def if_distrib cong: if_cong)
    with ty show ?thesis by simp
  qed
qed

lemma tick_on_empty_queue:
  "taskQueue s = [] \<Longrightarrow> processTaskQueue s now = s"
  by (simp add: processTaskQueue_def)

lemma dispatchOrder_is_queue:
  assumes "executing s = []" "activeTasks s = []" "0 < maxConcurrentTasks (config s)"
    "\<forall>c\<in>set (capabilities s). enabled c \<and> currentLoad c = 0 \<and> 0 < maxConcurrent c"
    "map cap_type (capabilities s) = [Personaplex, AgentZero, Poke]"
  shows "dispatchOrder n s now = take n (taskQueue s)"
  using assms
proof (induction n arbitrary: s)
  case 0
  show ?case by simp
next
  case (Suc n)
  show ?case
  proof (cases "taskQueue s")
    case Nil
    then have "processTaskQueue s now = s" by (rule tick_on_empty_queue)
    moreover have "settleAll s now = s" using Suc.prems(1) by (simp add: settleAll_def)
    moreover have "dispatchOrder n s now = take n (taskQueue s)"
      using Suc.prems by (intro Suc.IH)
    ultimately show ?thesis using Nil Suc.prems(1) by (simp add: startedBy_def)
  next
    case (Cons t q)
    note ts = tick_and_settle [OF Suc.prems(1,2,3,4,5) Cons, of now]
    have "dispatchOrder n (settleAll (processTaskQueue s now) now) now =
          take n (taskQueue (settleAll (processTaskQueue s now) now))"
      using ts Suc.prems(3) by (intro Suc.IH) simp_all
    with ts(1,7) Cons show ?thesis by simp
  qed
qed


lemma length_by_class:
  "length xs =
     length (filter (\<lambda>x. c x = Critical) xs) + length (filter (\<lambda>x. c x = High) xs) +
     length (filter (\<lambda>x. c x = Normal) xs) + length (filter (\<lambda>x. c x = Low) xs)"
proof (induction xs)
  case Nil
  show ?case by simp
next
  case (Cons x xs)
  show ?case
  proof (cases "c x")
    case Low
    with Cons show ?thesis by (simp only: filter.simps list.size) simp
  next
    case Normal
    with Cons show ?thesis by (simp only: filter.simps list.size) simp
  next
    case High
    with Cons show ?thesis by (simp only: filter.simps list.size) simp
  next
    case Critical
    with Cons show ?thesis by (simp only: filter.simps list.size) simp
  qed
qed

lemma length_eq_by_class:
  fixes c :: "'a \<Rightarrow> priority_class"
  assumes "\<And>p. filter (\<lambda>x. c x = p) xs = filter (\<lambda>x. c x = p) ys"
  shows "length xs = length ys"
proof -
  have "length xs =
     length (filter (\<lambda>x. c x = Critical) xs) + length (filter (\<lambda>x. c x = High) xs) +
     length (filter (\<lambda>x. c x = Normal) xs) + length (filter (\<lambda>x. c x = Low) xs)"
    by (rule length_by_class)
  also have "\<dots> =
     length (filter (\<lambda>x. c x = Critical) ys) + length (filter (\<lambda>x. c x = High) ys) +
     length (filter (\<lambda>x. c x = Normal) ys) + length (filter (\<lambda>x. c x = Low) ys)"
    by (simp only: assms)
  also have "\<dots> = length ys"
    by (rule length_by_class [symmetric])
  finally show ?thesis .
qed

lemma same_classes_same_elements:
  fixes c :: "nat \<Rightarrow> priority_class"
  assumes "\<And>p. filter (\<lambda>x. c x = p) xs = filter (\<lambda>x. c x = p) [0..<n]"
  shows "set xs = {0..<n}" and "distinct xs"
proof -
  have mem: "x \<in> set xs \<longleftrightarrow> x \<in> set [0..<n]" for x
  proof -
    have "x \<in> set xs \<longleftrightarrow> x \<in> set (filter (\<lambda>y. c y = c x) xs)" by simp
    also have "\<dots> \<longleftrightarrow> x \<in> set (filter (\<lambda>y. c y = c x) [0..<n])" by (simp only: assms)
    also have "\<dots> \<longleftrightarrow> x \<in> set [0..<n]" by simp
    finally show ?thesis .
  qed
  show s: "set xs = {0..<n}"
  proof (rule set_eqI)
    fix x
    show "x \<in> set xs \<longleftrightarrow> x \<in> {0..<n}"
      using mem [of x] by (simp only: set_upt)
  qed
  have "length xs = length [0..<n]"
    using assms by (rule length_eq_by_class)
  then have "card (set xs) = length xs" by (simp add: s)
  then show "distinct xs" by (rule card_distinct)
qed

text \<open>
  C1. Tasks submitted to a fresh controller are dispatched in priority-class order
  critical, high, normal, low, and within a class in submission order. The task at
  address \<open>t\<close> is the \<open>t\<close>-th submission and carries its priority; \<open>dispatchOrder\<close>
  is the order in which the ticks of the dispatch loop start the tasks, every execution
  returning before the next tick. The order is sorted by class, its restriction to each
  class is the submission order of that class, and every submitted task is started
  exactly once. The loop needs room for one active task.
\<close>

theorem dispatch_order_respects_priority:
  assumes "0 < maxConcurrentTasks cfg"
  shows "(\<forall>t<length reqs.
            priority (tasks (submitAll (newController cfg) reqs) t) = requestedPriority (reqs ! t)) \<and>
         sorted (map (\<lambda>t. priorityOrder (requestedPriority (reqs ! t)))
           (dispatchOrder (length reqs) (submitAll (newController cfg) reqs) now)) \<and>
         (\<forall>p. filter (\<lambda>t. requestedPriority (reqs ! t) = p)
                (dispatchOrder (length reqs) (submitAll (newController cfg) reqs) now) =
              filter (\<lambda>t. requestedPriority (reqs ! t) = p) [0..<length reqs]) \<and>
         set (dispatchOrder (length reqs) (submitAll (newController cfg) reqs) now) =
           {0..<length reqs} \<and>
         distinct (dispatchOrder (length reqs) (submitAll (newController cfg) reqs) now)"
proof -
  define s where "s = submitAll (newController cfg) reqs"
  define order where "order = dispatchOrder (length reqs) s now"
  note inv = submitAll_invariant [of cfg reqs, folded s_def]
  from inv have pr: "\<forall>t<length reqs. priority (tasks s t) = requestedPriority (reqs ! t)"
    and so: "sorted (map (\<lambda>t. priorityOrder (priority (tasks s t))) (taskQueue s))"
    and fi: "\<And>p. filter (\<lambda>t. priority (tasks s t) = p) (taskQueue s) =
               filter (\<lambda>t. priority (tasks s t) = p) [0..<length reqs]"
    and bd: "\<forall>x\<in>set (taskQueue s). x < length reqs"
    and caps: "capabilities s = initializeDefaultCapabilities"
    and cf: "config s = cfg" and ex: "executing s = []" and ac: "activeTasks s = []"
    by simp_all
  have ready: "\<forall>c\<in>set (capabilities s). enabled c \<and> currentLoad c = 0 \<and> 0 < maxConcurrent c"
    and types: "map cap_type (capabilities s) = [Personaplex, AgentZero, Poke]"
    by (simp_all add: caps initializeDefaultCapabilities_def)
  have "order = take (length reqs) (taskQueue s)"
    unfolding order_def using ex ac assms ready types
    by (intro dispatchOrder_is_queue) (simp_all add: cf)
  moreover have "length (taskQueue s) = length reqs"
    using length_eq_by_class [of "\<lambda>t. priority (tasks s t)" "taskQueue s" "[0..<length reqs]", OF fi]
    by simp
  ultimately have order: "order = taskQueue s" by simp
  have sorted': "sorted (map (\<lambda>t. priorityOrder (requestedPriority (reqs ! t))) order)"
  proof -
    have "map (\<lambda>t. priorityOrder (requestedPriority (reqs ! t))) (taskQueue s) =
          map (\<lambda>t. priorityOrder (priority (tasks s t))) (taskQueue s)"
      using bd pr by (intro map_cong) auto
    then show ?thesis unfolding order using so by (simp only:)
  qed
  have class': "filter (\<lambda>t. requestedPriority (reqs ! t) = p) order =
                filter (\<lambda>t. requestedPriority (reqs ! t) = p) [0..<length reqs]" for p
  proof -
    have "filter (\<lambda>t. requestedPriority (reqs ! t) = p) (taskQueue s) =
          filter (\<lambda>t. priority (tasks s t) = p) (taskQueue s)"
      using bd pr by (intro filter_cong) auto
    also have "\<dots> = filter (\<lambda>t. priority (tasks s t) = p) [0..<length reqs]" by (rule fi)
    also have "\<dots> = filter (\<lambda>t. requestedPriority (reqs ! t) = p) [0..<length reqs]"
      using pr by (intro filter_cong) auto
    finally show ?thesis unfolding order .
  qed
  have elems: "set order = {0..<length reqs}" and dist: "distinct order"
    by (rule same_classes_same_elements [of "\<lambda>t. requestedPriority (reqs ! t)", OF class'])+
  have classes: "\<forall>p. filter (\<lambda>t. requestedPriority (reqs ! t) = p) order =
                filter (\<lambda>t. requestedPriority (reqs ! t) = p) [0..<length reqs]"
    using class' by (intro allI)
  have "(\<forall>t<length reqs. priority (tasks s t) = requestedPriority (reqs ! t)) \<and>
        sorted (map (\<lambda>t. priorityOrder (requestedPriority (reqs ! t))) order) \<and>
        (\<forall>p. filter (\<lambda>t. requestedPriority (reqs ! t) = p) order =
              filter (\<lambda>t. requestedPriority (reqs ! t) = p) [0..<length reqs]) \<and>
        set order = {0..<length reqs} \<and> distinct order"
    using pr sorted' classes elems dist by (intro conjI)
  then show ?thesis unfolding order_def s_def .
qed

theorem dispatch_order_respects_priority_witness:
  "0 < maxConcurrentTasks DEFAULT_CONFIG \<and>
   dispatchOrder (length fourSubmissions) (submitAll (newController DEFAULT_CONFIG) fourSubmissions) 100 =
     [1, 3, 2, 0] \<and>
   map requestedPriority fourSubmissions = [Low, Critical, Normal, High] \<and>
   sorted (map (\<lambda>t. priorityOrder (requestedPriority (fourSubmissions ! t))) [1, 3, 2, 0]) \<and>
   distinct [1, 3, 2, 0::nat]"
proof -
  have h: "0 < maxConcurrentTasks DEFAULT_CONFIG" by (simp add: DEFAULT_CONFIG_def)
  have run: "dispatchOrder (length fourSubmissions)
      (submitAll (newController DEFAULT_CONFIG) fourSubmissions) 100 = [1, 3, 2, 0]"
    by code_simp
  have prio: "map requestedPriority fourSubmissions = [Low, Critical, Normal, High]"
    by code_simp
  note inst = dispatch_order_respects_priority [OF h, of fourSubmissions 100]
  from inst have "sorted (map (\<lambda>t. priorityOrder (requestedPriority (fourSubmissions ! t)))
      (dispatchOrder (length fourSubmissions)
        (submitAll (newController DEFAULT_CONFIG) fourSubmissions) 100))"
    by (elim conjE)
  then have a: "sorted (map (\<lambda>t. priorityOrder (requestedPriority (fourSubmissions ! t))) [1, 3, 2, 0])"
    by (simp only: run)
  from inst have "distinct (dispatchOrder (length fourSubmissions)
        (submitAll (newController DEFAULT_CONFIG) fourSubmissions) 100)"
    by (elim conjE)
  then have b: "distinct [1, 3, 2, 0::nat]" by (simp only: run)
  from h run prio a b show ?thesis by (intro conjI)
qed





text \<open>The same with no retry left.\<close>

lemma executeTask_settle_Threw_fail:
  assumes "find (\<lambda>e. fst e = t) (executing s) = Some (t, cid, st)"
    and "\<not> of_nat (retryCount (tasks s t)) < maxRetries (tasks s t)"
  shows
    "taskQueue (executeTask_settle s t (Threw err) now) = taskQueue s"
    "executing (executeTask_settle s t (Threw err) now) = remove1 (t, cid, st) (executing s)"
    "activeTasks (executeTask_settle s t (Threw err) now) = removeAll t (activeTasks s)"
    "config (executeTask_settle s t (Threw err) now) = config s"
    "tasks (executeTask_settle s t (Threw err) now) =
       (tasks s)(t := (tasks s t)\<lparr>status := Failed, completedAt := Some now, error := Some err\<rparr>)"
  using assms
  by (simp_all add: executeTask_settle_def executeTask_finally_def handleTaskError_def
      updateTask_def updateCapability_def Let_def)





















lemma find_by_id_None:
  assumes "list_all (\<lambda>u. task_id (h u) = u) xs" and "t \<notin> set xs"
    and "\<And>u. u \<noteq> t \<Longrightarrow> h' u = h u"
  shows "find (\<lambda>u. task_id (h' u) = t) xs = None"
  using assms(1,2)
proof (induction xs)
  case Nil
  show ?case by simp
next
  case (Cons x xs)
  then have "x \<noteq> t" and "task_id (h x) = x" by auto
  with assms(3) [of x] have "task_id (h' x) \<noteq> t" by simp
  with Cons show ?case by simp
qed

lemma getTask_None:
  assumes "list_all (\<lambda>u. task_id (h u) = u) (activeTasks s)"
    and "list_all (\<lambda>u. task_id (h u) = u) (taskQueue s)"
    and "t \<notin> set (activeTasks s)" and "t \<notin> set (taskQueue s)"
    and "\<And>u. u \<noteq> t \<Longrightarrow> tasks s u = h u"
  shows "getTask s t = None"
  using find_by_id_None [OF assms(1,3,5)] find_by_id_None [OF assms(2,4,5)]
  by (simp add: getTask_def getTaskRef_def)

text \<open>
  C6, as stated, fails: a voice task with no retries whose executor throws, and a voice
  task with no retries popped while the voice capability is disabled, both end with
  status failed, and \<open>getTask\<close> then finds nothing under their id, because a failed
  task is in neither the queue nor the active map.
\<close>

theorem failed_task_not_found_by_getTask:
  "status (tasks (run (newController DEFAULT_CONFIG)
      [(Submit TVoice ''{}'' None (Some 0), 0), (Tick, 100),
       (Settle 0 (Threw ''Error: boom''), 101)]) 0) = Failed \<and>
   getTask (run (newController DEFAULT_CONFIG)
      [(Submit TVoice ''{}'' None (Some 0), 0), (Tick, 100),
       (Settle 0 (Threw ''Error: boom''), 101)]) 0 = None \<and>
   status (tasks (run voiceDisabled
      [(Submit TVoice ''{}'' None (Some 0), 10001), (Tick, 10100)]) 1) = Failed \<and>
   getTask (run voiceDisabled
      [(Submit TVoice ''{}'' None (Some 0), 10001), (Tick, 10100)]) 1 = None"
  by code_simp

text \<open>
  C6, amended. When a task terminally fails, the task object itself (the one
  \<open>submitTask\<close> returned) has status failed and its error set: to
  \<open>No capable agent available\<close> when the tick finds no capability and no retry is
  left, and to the text of the thrown value when the executor throws and no retry is
  left. \<open>getTask\<close> with its id then returns nothing. The ids of the tasks in the queue
  and the active map are their addresses, and the failing task is not queued a second
  time.
\<close>

theorem terminal_failure_on_task_object:
  "(taskQueue s = t # rest \<and> int (length (activeTasks s)) < maxConcurrentTasks (config s) \<and>
    candidates s t = [] \<and> \<not> of_nat (retryCount (tasks s t)) < maxRetries (tasks s t) \<and>
    t \<notin> set rest \<and> t \<notin> set (activeTasks s) \<and>
    list_all (\<lambda>u. task_id (tasks s u) = u) (rest @ activeTasks s)
    \<longrightarrow> status (tasks (processTaskQueue s now) t) = Failed \<and>
        error (tasks (processTaskQueue s now) t) = Some ''No capable agent available'' \<and>
        getTask (processTaskQueue s now) t = None) \<and>
   (find (\<lambda>e. fst e = t) (executing s) = Some (t, cid, st) \<and>
    \<not> of_nat (retryCount (tasks s t)) < maxRetries (tasks s t) \<and> t \<notin> set (taskQueue s) \<and>
    list_all (\<lambda>u. task_id (tasks s u) = u) (taskQueue s @ activeTasks s)
    \<longrightarrow> status (tasks (executeTask_settle s t (Threw err) now) t) = Failed \<and>
        error (tasks (executeTask_settle s t (Threw err) now) t) = Some err \<and>
        getTask (executeTask_settle s t (Threw err) now) t = None)"
proof (intro conjI impI)
  assume a: "taskQueue s = t # rest \<and> int (length (activeTasks s)) < maxConcurrentTasks (config s) \<and>
    candidates s t = [] \<and> \<not> of_nat (retryCount (tasks s t)) < maxRetries (tasks s t) \<and>
    t \<notin> set rest \<and> t \<notin> set (activeTasks s) \<and>
    list_all (\<lambda>u. task_id (tasks s u) = u) (rest @ activeTasks s)"
  then have sel: "selectCapability (s\<lparr>taskQueue := rest\<rparr>) t now = (s\<lparr>taskQueue := rest\<rparr>, None)"
    by (simp add: selectCapability_None candidates_frame)
  have eq: "processTaskQueue s now =
      updateTask t (\<lambda>x. x\<lparr>status := Failed, error := Some ''No capable agent available''\<rparr>)
        (s\<lparr>taskQueue := rest\<rparr>)"
    using a sel by (simp add: processTaskQueue_def)
  show "status (tasks (processTaskQueue s now) t) = Failed"
    by (simp add: eq updateTask_def)
  show "error (tasks (processTaskQueue s now) t) = Some ''No capable agent available''"
    by (simp add: eq updateTask_def)
  show "getTask (processTaskQueue s now) t = None"
    using a by (intro getTask_None [where h = "tasks s"]) (simp_all add: eq updateTask_def)
next
  assume b: "find (\<lambda>e. fst e = t) (executing s) = Some (t, cid, st) \<and>
    \<not> of_nat (retryCount (tasks s t)) < maxRetries (tasks s t) \<and> t \<notin> set (taskQueue s) \<and>
    list_all (\<lambda>u. task_id (tasks s u) = u) (taskQueue s @ activeTasks s)"
  then have f: "find (\<lambda>e. fst e = t) (executing s) = Some (t, cid, st)"
    and n: "\<not> of_nat (retryCount (tasks s t)) < maxRetries (tasks s t)"
    by simp_all
  note settle = executeTask_settle_Threw_fail [OF f n, of err now]
  show "status (tasks (executeTask_settle s t (Threw err) now) t) = Failed"
    by (simp add: settle)
  show "error (tasks (executeTask_settle s t (Threw err) now) t) = Some err"
    by (simp add: settle)
  show "getTask (executeTask_settle s t (Threw err) now) t = None"
  proof (rule getTask_None [where h = "tasks s"])
    show "list_all (\<lambda>u. task_id (tasks s u) = u)
        (activeTasks (executeTask_settle s t (Threw err) now))"
      using b by (simp add: settle list_all_iff)
    show "list_all (\<lambda>u. task_id (tasks s u) = u)
        (taskQueue (executeTask_settle s t (Threw err) now))"
      using b by (simp add: settle)
    show "t \<notin> set (activeTasks (executeTask_settle s t (Threw err) now))"
      by (simp add: settle)
    show "t \<notin> set (taskQueue (executeTask_settle s t (Threw err) now))"
      using b by (simp add: settle)
    show "\<And>u. u \<noteq> t \<Longrightarrow> tasks (executeTask_settle s t (Threw err) now) u = tasks s u"
      by (simp add: settle)
  qed
qed

theorem terminal_failure_on_task_object_witness:
  "taskQueue voiceTaskWaiting = [1] \<and> candidates voiceTaskWaiting 1 = [] \<and>
   status (tasks (processTaskQueue voiceTaskWaiting 10100) 1) = Failed \<and>
   error (tasks (processTaskQueue voiceTaskWaiting 10100) 1) = Some ''No capable agent available'' \<and>
   getTask (processTaskQueue voiceTaskWaiting 10100) 1 = None \<and>
   executing voiceTaskRunning = [(0, ''personaplex-voice'', 100)] \<and>
   status (tasks (executeTask_settle voiceTaskRunning 0 (Threw ''Error: boom'') 101) 0) = Failed \<and>
   error (tasks (executeTask_settle voiceTaskRunning 0 (Threw ''Error: boom'') 101) 0) =
     Some ''Error: boom'' \<and>
   getTask (executeTask_settle voiceTaskRunning 0 (Threw ''Error: boom'') 101) 0 = None"
proof -
  have q: "taskQueue voiceTaskWaiting = [1]" by code_simp
  have c: "candidates voiceTaskWaiting 1 = []" by code_simp
  have routing:
    "taskQueue voiceTaskWaiting = 1 # [] \<and>
     int (length (activeTasks voiceTaskWaiting)) < maxConcurrentTasks (config voiceTaskWaiting) \<and>
     candidates voiceTaskWaiting 1 = [] \<and>
     \<not> of_nat (retryCount (tasks voiceTaskWaiting 1)) < maxRetries (tasks voiceTaskWaiting 1) \<and>
     (1::nat) \<notin> set [] \<and> 1 \<notin> set (activeTasks voiceTaskWaiting) \<and>
     list_all (\<lambda>u. task_id (tasks voiceTaskWaiting u) = u) ([] @ activeTasks voiceTaskWaiting)"
    by code_simp
  note r = terminal_failure_on_task_object
    [where s = voiceTaskWaiting and t = 1 and rest = "[]" and now = 10100,
      THEN conjunct1, THEN mp, OF routing]
  have e: "executing voiceTaskRunning = [(0, ''personaplex-voice'', 100)]" by code_simp
  have execution:
    "find (\<lambda>e. fst e = 0) (executing voiceTaskRunning) = Some (0, ''personaplex-voice'', 100) \<and>
     \<not> of_nat (retryCount (tasks voiceTaskRunning 0)) < maxRetries (tasks voiceTaskRunning 0) \<and>
     0 \<notin> set (taskQueue voiceTaskRunning) \<and>
     list_all (\<lambda>u. task_id (tasks voiceTaskRunning u) = u)
       (taskQueue voiceTaskRunning @ activeTasks voiceTaskRunning)"
    by code_simp
  note x = terminal_failure_on_task_object
    [where s = voiceTaskRunning and t = 0 and cid = "''personaplex-voice''" and st = 100
      and err = "''Error: boom''" and now = 101,
      THEN conjunct2, THEN mp, OF execution]
  from q c r e x show ?thesis by (intro conjI) (elim conjE, assumption)+
qed

end
